theory Spec2Isabelle
  imports Main "HOL-Library.Log_Nat"
begin

text \<open>
  A model of \<^verbatim>\<open>todo.py\<close>, the Streamlit to-do list: the store (\<^verbatim>\<open>load_todos\<close>,
  \<^verbatim>\<open>save_todos\<close>, \<^verbatim>\<open>get_next_id\<close>), the handlers of the add form and of the
  buttons, the filters and the analytics. The data file and the messages shown are an explicit
  state; an exception is the left summand of a result.
\<close>

section \<open>Python values used by todo.py\<close>

subsection \<open>Strings\<close>

text \<open>
  A Python \<^verbatim>\<open>str\<close> is a sequence of Unicode code points; a code point is the natural
  number of the character. \<open>str\<close> turns an ASCII literal into such a sequence.
\<close>

type_synonym pystr = "nat list"

definition str :: "string \<Rightarrow> pystr" where
  "str s = map of_char s"

text \<open>
  \<^verbatim>\<open>str.isspace\<close> for one code point: the code points CPython lists as whitespace
  (U+0009..U+000D, U+001C..U+0020, U+0085, U+00A0, U+1680, U+2000..U+200A, U+2028, U+2029,
  U+202F, U+205F, U+3000).
\<close>

definition isspace :: "nat \<Rightarrow> bool" where
  "isspace c \<longleftrightarrow>
     (9 \<le> c \<and> c \<le> 13) \<or> (28 \<le> c \<and> c \<le> 32) \<or> c = 133 \<or> c = 160 \<or> c = 5760 \<or>
     (8192 \<le> c \<and> c \<le> 8202) \<or> c = 8232 \<or> c = 8233 \<or> c = 8239 \<or> c = 8287 \<or> c = 12288"

text \<open>\<^verbatim>\<open>s.strip()\<close>: leading and trailing whitespace removed.\<close>

definition strip :: "pystr \<Rightarrow> pystr" where
  "strip s = rev (dropWhile isspace (rev (dropWhile isspace s)))"

text \<open>
  \<^verbatim>\<open>s.encode("utf-8")\<close> succeeds: no code point of \<open>s\<close> is a surrogate (U+D800..U+DFFF).
  \<^verbatim>\<open>json.load\<close> does produce such strings, from an escape like \<^verbatim>\<open>"\ud800"\<close>.
\<close>

definition encodable :: "pystr \<Rightarrow> bool" where
  "encodable s = list_all (\<lambda>c. c < 55296 \<or> (57343 < c \<and> c < 1114112)) s"

subsection \<open>Exceptions\<close>

datatype py_error = KeyError | ValueError | ZeroDivisionError | OverflowError

subsection \<open>Tasks\<close>

text \<open>
  A to-do is a dict read from JSON. The code reads the keys \<^verbatim>\<open>id\<close>, \<^verbatim>\<open>title\<close>,
  \<^verbatim>\<open>priority\<close>, \<^verbatim>\<open>category\<close> and \<^verbatim>\<open>completed\<close>; each may be absent
  (\<open>None\<close>), which is what \<^verbatim>\<open>t.get(key, default)\<close> and \<^verbatim>\<open>t[key]\<close> tell apart.
  Values have the types todo.py itself writes: an integer id, strings, a boolean flag.
\<close>

record task =
  task_id :: "int option"
  title :: "pystr option"
  priority :: "pystr option"
  category :: "pystr option"
  completed :: "bool option"

text \<open>\<^verbatim>\<open>t.get("id", 0)\<close>\<close>

definition get_id :: "task \<Rightarrow> int" where
  "get_id t = (case task_id t of None \<Rightarrow> 0 | Some i \<Rightarrow> i)"

text \<open>\<^verbatim>\<open>t["id"]\<close>: a missing key raises.\<close>

definition item_id :: "task \<Rightarrow> py_error + int" where
  "item_id t = (case task_id t of None \<Rightarrow> Inl KeyError | Some i \<Rightarrow> Inr i)"

text \<open>The truth value of \<^verbatim>\<open>t.get("completed", False)\<close> (and of \<^verbatim>\<open>t.get("completed")\<close>).\<close>

definition get_completed :: "task \<Rightarrow> bool" where
  "get_completed t = (case completed t of None \<Rightarrow> False | Some b \<Rightarrow> b)"

text \<open>\<^verbatim>\<open>t.get("priority", "Low")\<close>\<close>

definition get_priority :: "task \<Rightarrow> pystr" where
  "get_priority t = (case priority t of None \<Rightarrow> str ''Low'' | Some p \<Rightarrow> p)"

text \<open>\<^verbatim>\<open>t.get(key) in selection\<close>: an absent key gives \<^verbatim>\<open>None\<close>, which is in no
  list of strings.\<close>

definition get_in :: "pystr option \<Rightarrow> pystr list \<Rightarrow> bool" where
  "get_in v selection = (case v of None \<Rightarrow> False | Some x \<Rightarrow> x \<in> set selection)"

text \<open>
  \<^verbatim>\<open>json.dump(t, f, ensure_ascii=False)\<close> into a UTF-8 file succeeds on the to-do \<open>t\<close>:
  every string it holds can be encoded.
\<close>

definition dumpable :: "task \<Rightarrow> bool" where
  "dumpable t \<longleftrightarrow>
     (case title t of None \<Rightarrow> True | Some x \<Rightarrow> encodable x) \<and>
     (case priority t of None \<Rightarrow> True | Some x \<Rightarrow> encodable x) \<and>
     (case category t of None \<Rightarrow> True | Some x \<Rightarrow> encodable x)"

section \<open>The store\<close>

text \<open>
  What \<^verbatim>\<open>json.load\<close> makes of the data file: the file is absent, reading or decoding it
  raises (\<open>Malformed\<close>), or it holds a JSON value, an array of to-dos or something else.
\<close>

datatype json_value =
  JArray "task list" | JObject task | JString pystr | JNumber int | JBool bool | JNull

datatype file_state = Missing | Malformed | Valid json_value

text \<open>What Streamlit is told to show, in order; \<open>Rerun\<close> is \<^verbatim>\<open>st.rerun()\<close>.\<close>

datatype ui_event =
  Error_loading_todos | Error_saving_todos | Please_enter_title | Added_successfully
  | No_todos_to_analyze | Rerun

text \<open>
  The application's state: the data file, the outcome the file system has in store for a
  write (\<open>None\<close>: it accepts what is written; \<open>Some f\<close>: opening or writing raises and
  leaves the file as \<open>f\<close>), the ids whose \<^verbatim>\<open>editing_<id>\<close> flag is set in the session
  state, and the messages shown.
\<close>

record app =
  data_file :: file_state
  write_fault :: "file_state option"
  editing :: "int set"
  ui :: "ui_event list"

definition show_ui :: "ui_event \<Rightarrow> app \<Rightarrow> app" where
  "show_ui e s = s\<lparr>ui := ui s @ [e]\<rparr>"

text \<open>
  \<^verbatim>\<open>save_todos\<close>, lines 28-36. Opening the file for writing empties it; the dump then
  writes the JSON text piece by piece. A to-do with a string that UTF-8 cannot encode makes
  the dump raise \<^verbatim>\<open>UnicodeEncodeError\<close> part of the way: what is left in the file is a
  proper prefix of the text of an array, which does not decode. Every exception is caught
  and reported, and the function then returns \<^verbatim>\<open>False\<close>.
\<close>

definition save_todos :: "task list \<Rightarrow> app \<Rightarrow> bool \<times> app" where
  "save_todos todos s =
     (case write_fault s of
        Some left \<Rightarrow> (False, show_ui Error_saving_todos (s\<lparr>data_file := left\<rparr>))
      | None \<Rightarrow>
          if list_all dumpable todos then (True, s\<lparr>data_file := Valid (JArray todos)\<rparr>)
          else (False, show_ui Error_saving_todos (s\<lparr>data_file := Malformed\<rparr>)))"

text \<open>\<^verbatim>\<open>load_todos\<close>, lines 13-26. Every exception of the body is caught.\<close>

definition load_todos :: "app \<Rightarrow> task list \<times> app" where
  "load_todos s =
     (case data_file s of
        Valid data \<Rightarrow> (case data of JArray todos \<Rightarrow> (todos, s) | _ \<Rightarrow> ([], s))
      | Missing \<Rightarrow> ([], snd (save_todos [] s))
      | Malformed \<Rightarrow> ([], show_ui Error_loading_todos s))"

text \<open>\<^verbatim>\<open>get_next_id\<close>, lines 38-42; \<open>py_max\<close> is \<^verbatim>\<open>max\<close> over a non-empty sequence.\<close>

fun py_max :: "int list \<Rightarrow> py_error + int" where
  "py_max [] = Inl ValueError"
| "py_max (x # xs) = Inr (fold max xs x)"

definition get_next_id :: "task list \<Rightarrow> py_error + int" where
  "get_next_id todos =
     (if todos = [] then Inr 1
      else case py_max (map get_id todos) of Inl e \<Rightarrow> Inl e | Inr m \<Rightarrow> Inr (m + 1))"

section \<open>Mutations of the collection\<close>

text \<open>The dict built on lines 64-70.\<close>

definition new_todo :: "int \<Rightarrow> pystr \<Rightarrow> pystr \<Rightarrow> pystr \<Rightarrow> task" where
  "new_todo n todo_title todo_priority todo_category =
     \<lparr>task_id = Some n, title = Some (strip todo_title), priority = Some todo_priority,
      category = Some (strip todo_category), completed = Some False\<rparr>"

text \<open>
  The loops of lines 123-126 (\<open>flag = True\<close>) and 219-222 (\<open>flag = False\<close>):
  \<^verbatim>\<open>for t in todos: if t["id"] == todo["id"]: t["completed"] = flag; break\<close>.
  \<open>i\<close> is \<^verbatim>\<open>todo["id"]\<close>. The first to-do with that id is updated in place and the
  loop stops; a to-do without an id met before that raises \<^verbatim>\<open>KeyError\<close>.
\<close>

fun set_completed :: "bool \<Rightarrow> int \<Rightarrow> task list \<Rightarrow> py_error + task list" where
  "set_completed flag i [] = Inr []"
| "set_completed flag i (t # ts) =
     (case item_id t of
        Inl e \<Rightarrow> Inl e
      | Inr j \<Rightarrow>
          if j = i then Inr (t\<lparr>completed := Some flag\<rparr> # ts)
          else (case set_completed flag i ts of Inl e \<Rightarrow> Inl e | Inr ts' \<Rightarrow> Inr (t # ts')))"

text \<open>The loop of lines 152-157, the same search storing the three edited fields.\<close>

fun save_edit :: "int \<Rightarrow> pystr \<Rightarrow> pystr \<Rightarrow> pystr \<Rightarrow> task list \<Rightarrow> py_error + task list" where
  "save_edit i new_title new_category new_priority [] = Inr []"
| "save_edit i new_title new_category new_priority (t # ts) =
     (case item_id t of
        Inl e \<Rightarrow> Inl e
      | Inr j \<Rightarrow>
          if j = i
          then Inr (t\<lparr>title := Some (strip new_title), category := Some (strip new_category),
                      priority := Some new_priority\<rparr> # ts)
          else (case save_edit i new_title new_category new_priority ts of
                  Inl e \<Rightarrow> Inl e | Inr ts' \<Rightarrow> Inr (t # ts')))"

text \<open>Lines 137 and 228: \<^verbatim>\<open>[t for t in todos if t["id"] != todo["id"]]\<close>.\<close>

fun delete_todo :: "int \<Rightarrow> task list \<Rightarrow> py_error + task list" where
  "delete_todo i [] = Inr []"
| "delete_todo i (t # ts) =
     (case item_id t of
        Inl e \<Rightarrow> Inl e
      | Inr j \<Rightarrow>
          (case delete_todo i ts of
             Inl e \<Rightarrow> Inl e
           | Inr ts' \<Rightarrow> Inr (if j \<noteq> i then t # ts' else ts')))"

text \<open>Line 196: \<^verbatim>\<open>[t for t in todos if not t.get("completed", False)]\<close>.\<close>

definition clear_completed :: "task list \<Rightarrow> task list" where
  "clear_completed todos = filter (\<lambda>t. \<not> get_completed t) todos"

section \<open>The button handlers\<close>

text \<open>
  Streamlit runs the script again on every click, so a handler works on the collection
  that \<^verbatim>\<open>load_todos\<close> has just read, and each one ends the run with \<^verbatim>\<open>st.rerun()\<close>.
  An exception that no handler catches (\<open>Inl\<close>) ends the run before anything is saved.
  Each definition is the body that runs once its button reports the click; the button is
  there only when the page has been drawn down to it.
\<close>

text \<open>The form of \<^verbatim>\<open>render_todo_input\<close>, lines 61-76.\<close>

definition add_submitted :: "pystr \<Rightarrow> pystr \<Rightarrow> pystr \<Rightarrow> app \<Rightarrow> py_error + app" where
  "add_submitted todo_title todo_priority todo_category s =
     (if strip todo_title \<noteq> [] then
        (let (todos, s1) = load_todos s in
         case get_next_id todos of
           Inl e \<Rightarrow> Inl e
         | Inr n \<Rightarrow>
             (let (ok, s2) =
                    save_todos (todos @ [new_todo n todo_title todo_priority todo_category]) s1
              in Inr (if ok then show_ui Rerun (show_ui Added_successfully s2) else s2)))
      else Inr (show_ui Please_enter_title s))"

text \<open>Lines 122-128 and 218-224.\<close>

definition completed_clicked :: "bool \<Rightarrow> int \<Rightarrow> app \<Rightarrow> py_error + app" where
  "completed_clicked flag i s =
     (let (todos, s1) = load_todos s in
      case set_completed flag i todos of
        Inl e \<Rightarrow> Inl e
      | Inr todos' \<Rightarrow> Inr (show_ui Rerun (snd (save_todos todos' s1))))"

definition complete_clicked :: "int \<Rightarrow> app \<Rightarrow> py_error + app" where
  "complete_clicked = completed_clicked True"

definition undo_clicked :: "int \<Rightarrow> app \<Rightarrow> py_error + app" where
  "undo_clicked = completed_clicked False"

text \<open>Lines 136-139 and 227-230.\<close>

definition delete_clicked :: "int \<Rightarrow> app \<Rightarrow> py_error + app" where
  "delete_clicked i s =
     (let (todos, s1) = load_todos s in
      case delete_todo i todos of
        Inl e \<Rightarrow> Inl e
      | Inr todos' \<Rightarrow> Inr (show_ui Rerun (snd (save_todos todos' s1))))"

text \<open>The options of the priority select boxes, lines 55, 96 and 146.\<close>

definition priority_options :: "pystr list" where
  "priority_options = [str ''Low'', str ''Medium'', str ''High'']"

text \<open>\<^verbatim>\<open>xs.index(x)\<close>: the first position of \<open>x\<close>, or \<^verbatim>\<open>ValueError\<close>.\<close>

fun py_index :: "'a list \<Rightarrow> 'a \<Rightarrow> py_error + nat" where
  "py_index [] x = Inl ValueError"
| "py_index (y # ys) x =
     (if y = x then Inr 0
      else case py_index ys x of Inl e \<Rightarrow> Inl e | Inr k \<Rightarrow> Inr (Suc k))"

text \<open>
  The edit form of the to-do \<open>todo\<close> that is shown, lines 142-160, with Save pressed; the
  form is on the page while the \<^verbatim>\<open>editing\<close> flag of the to-do is set. The form is
  built first: line 147 looks the stored priority of \<open>todo\<close> up among the options and
  raises \<^verbatim>\<open>ValueError\<close> when it is none of them, so that no edit of such a to-do is
  ever saved. Then the loop of lines 152-157 runs, the collection is saved and the
  \<^verbatim>\<open>editing\<close> flag of the to-do is cleared.
\<close>

definition edit_saved :: "task \<Rightarrow> pystr \<Rightarrow> pystr \<Rightarrow> pystr \<Rightarrow> app \<Rightarrow> py_error + app" where
  "edit_saved todo new_title new_category new_priority s =
     (let (todos, s1) = load_todos s in
      case item_id todo of
        Inl e \<Rightarrow> Inl e
      | Inr i \<Rightarrow>
          (case py_index priority_options (get_priority todo) of
             Inl e \<Rightarrow> Inl e
           | Inr k \<Rightarrow>
               (case save_edit i new_title new_category new_priority todos of
                  Inl e \<Rightarrow> Inl e
                | Inr todos' \<Rightarrow>
                    (let s2 = snd (save_todos todos' s1)
                     in Inr (show_ui Rerun (s2\<lparr>editing := editing s2 - {i}\<rparr>))))))"

text \<open>Lines 195-198.\<close>

definition clear_clicked :: "app \<Rightarrow> app" where
  "clear_clicked s =
     (let (todos, s1) = load_todos s
      in show_ui Rerun (snd (save_todos (clear_completed todos) s1)))"

section \<open>Views and filters\<close>

text \<open>Lines 85 and 175.\<close>

definition active_todos :: "task list \<Rightarrow> task list" where
  "active_todos todos = filter (\<lambda>t. \<not> get_completed t) todos"

definition completed_todos :: "task list \<Rightarrow> task list" where
  "completed_todos todos = filter get_completed todos"

text \<open>
  Lines 98-102 (and 188-192): the list shown, narrowed by each multiselect whose selection
  is not empty.
\<close>

definition filtered_todos :: "pystr list \<Rightarrow> pystr list \<Rightarrow> task list \<Rightarrow> task list" where
  "filtered_todos filter_category filter_priority shown =
     (let filtered = shown;
          filtered = (if filter_category \<noteq> []
                      then filter (\<lambda>t. get_in (category t) filter_category) filtered
                      else filtered);
          filtered = (if filter_priority \<noteq> []
                      then filter (\<lambda>t. get_in (priority t) filter_priority) filtered
                      else filtered)
      in filtered)"

section \<open>Analytics\<close>

subsection \<open>Python floats\<close>

text \<open>
  A finite Python \<^verbatim>\<open>float\<close> is an IEEE 754 binary64 number, here the rational it
  denotes. \<open>fl q\<close> is the binary64 number nearest to \<open>q\<close>, ties to the even significand:
  53 significant bits, the unit in the last place never below \<open>2 ^ -1074\<close>. Overflow is
  checked where it can arise.
\<close>

type_synonym pyfloat = rat

definition round_half_even :: "rat \<Rightarrow> int" where
  "round_half_even q =
     (let f = \<lfloor>q\<rfloor>; d = q - of_int f
      in if d < 1 / 2 then f else if 1 / 2 < d then f + 1 else if even f then f else f + 1)"

definition pow2 :: "int \<Rightarrow> rat" where
  "pow2 e = (if 0 \<le> e then 2 ^ nat e else 1 / 2 ^ nat (- e))"

text \<open>\<open>floor_log2 q\<close> is the \<open>k\<close> with \<open>2 ^ k \<le> q < 2 ^ (k + 1)\<close>, for positive \<open>q\<close>.\<close>

definition floor_log2 :: "rat \<Rightarrow> int" where
  "floor_log2 q =
     (let (a, b) = quotient_of q; k = bitlen a - bitlen b
      in if pow2 k \<le> q then k else k - 1)"

definition fl :: "rat \<Rightarrow> pyfloat" where
  "fl q =
     (if q = 0 then 0
      else let e = max (floor_log2 \<bar>q\<bar> - 52) (- 1074)
           in of_int (round_half_even (q / pow2 e)) * pow2 e)"

text \<open>\<^verbatim>\<open>a / b\<close> on two ints: the correctly rounded quotient.\<close>

definition truediv :: "int \<Rightarrow> int \<Rightarrow> py_error + pyfloat" where
  "truediv a b =
     (if b = 0 then Inl ZeroDivisionError
      else let r = fl (of_int a / of_int b)
           in if pow2 1024 \<le> \<bar>r\<bar> then Inl OverflowError else Inr r)"

text \<open>\<^verbatim>\<open>x * y\<close> on floats (the product stays far below the overflow threshold here).\<close>

definition fmul :: "pyfloat \<Rightarrow> pyfloat \<Rightarrow> pyfloat" where
  "fmul x y = fl (x * y)"

text \<open>
  \<^verbatim>\<open>round(x, 1)\<close>: CPython writes \<open>x\<close> as a decimal with one digit after the point,
  correctly rounded from the exact value of \<open>x\<close> (ties to even), and reads that decimal
  back as a float.
\<close>

definition py_round1 :: "pyfloat \<Rightarrow> pyfloat" where
  "py_round1 x = fl (of_int (round_half_even (x * 10)) / 10)"

subsection \<open>Correct rounding, as IEEE 754 and Python specify it\<close>

text \<open>
  The rounding rules themselves, stated without computing anything; \<open>fl\<close> and
  \<open>py_round1\<close> above are proved to meet them. A finite binary64 number is an integer
  significand below \<open>2 ^ 53\<close> in magnitude times a power of two from \<open>2 ^ -1074\<close> to
  \<open>2 ^ 971\<close>.
\<close>

definition binary64 :: "rat \<Rightarrow> bool" where
  "binary64 z \<longleftrightarrow> (\<exists>m e. z = of_int m * pow2 e \<and> \<bar>m\<bar> < 2 ^ 53 \<and> - 1074 \<le> e \<and> e \<le> 971)"

text \<open>
  The significand of \<open>z\<close> is even, \<open>z\<close> written in its normal form: the significand is at
  least \<open>2 ^ 52\<close> in magnitude, or the exponent is the least one.
\<close>

definition even64 :: "rat \<Rightarrow> bool" where
  "even64 z \<longleftrightarrow>
     (\<exists>m e. z = of_int m * pow2 e \<and> even m \<and> \<bar>m\<bar> < 2 ^ 53 \<and> - 1074 \<le> e \<and> e \<le> 971 \<and>
            (2 ^ 52 \<le> \<bar>m\<bar> \<or> e = - 1074))"

text \<open>
  Round to nearest, ties to even: \<open>r\<close> is a binary64 number, no binary64 number is nearer
  to \<open>q\<close>, and when another one is as near, \<open>r\<close> is the one with the even significand. This
  is what IEEE 754 asks of \<^verbatim>\<open>a / b\<close> and \<^verbatim>\<open>x * y\<close> and what reading a decimal gives.
\<close>

definition nearest64 :: "rat \<Rightarrow> rat \<Rightarrow> bool" where
  "nearest64 q r \<longleftrightarrow>
     binary64 r \<and>
     (\<forall>z. binary64 z \<longrightarrow>
        \<bar>r - q\<bar> \<le> \<bar>z - q\<bar> \<and> (z \<noteq> r \<and> \<bar>z - q\<bar> = \<bar>r - q\<bar> \<longrightarrow> even64 r))"

text \<open>
  Rounding to one decimal place: \<open>d / 10\<close> is the number with one digit after the point
  nearest to \<open>x\<close>, and when another one is as near, the last digit of \<open>d\<close> is even.
\<close>

definition nearest_tenth :: "rat \<Rightarrow> int \<Rightarrow> bool" where
  "nearest_tenth x d \<longleftrightarrow>
     (\<forall>j. \<bar>of_int d / 10 - x\<bar> \<le> \<bar>of_int j / 10 - x\<bar> \<and>
          (j \<noteq> d \<and> \<bar>of_int j / 10 - x\<bar> = \<bar>of_int d / 10 - x\<bar> \<longrightarrow> even d))"

text \<open>
  \<^verbatim>\<open>round(c / n * 100, 1)\<close> for the exact quotient \<open>p\<close> of \<open>c\<close> by \<open>n\<close>: the quotient is
  rounded to a float \<open>q\<close>, the product \<open>q * 100\<close> to a float \<open>x\<close>, \<open>x\<close> to one decimal place
  \<open>d / 10\<close>, and that decimal is read as the float \<open>r\<close>.
\<close>

definition rounded_percentage :: "rat \<Rightarrow> rat \<Rightarrow> bool" where
  "rounded_percentage p r \<longleftrightarrow>
     (\<exists>q x d. nearest64 p q \<and> nearest64 (q * 100) x \<and> nearest_tenth x d \<and>
              nearest64 (of_int d / 10) r)"

subsection \<open>The metrics and the charts' data\<close>

text \<open>Line 250.\<close>

definition completed_count :: "task list \<Rightarrow> nat" where
  "completed_count todos = length (filter get_completed todos)"

text \<open>Lines 255-256: the rate is computed only under the guard \<^verbatim>\<open>len(todos) > 0\<close>.\<close>

definition completion_rate :: "task list \<Rightarrow> py_error + pyfloat option" where
  "completion_rate todos =
     (if length todos > 0 then
        (case truediv (int (completed_count todos)) (int (length todos)) of
           Inl e \<Rightarrow> Inl e
         | Inr q \<Rightarrow> Inr (Some (py_round1 (fmul q 100))))
      else Inr None)"

text \<open>\<^verbatim>\<open>value_counts()\<close>: each value that occurs, with the number of its occurrences.\<close>

definition value_counts :: "'a list \<Rightarrow> 'a \<rightharpoonup> nat" where
  "value_counts xs = (\<lambda>v. if v \<in> set xs then Some (count_list xs v) else None)"

text \<open>Lines 262-265.\<close>

definition priority_counts :: "task list \<Rightarrow> pystr \<rightharpoonup> nat" where
  "priority_counts todos = value_counts (map get_priority todos)"

text \<open>Lines 273-275: \<^verbatim>\<open>t.get("category", "Uncategorized") or "Uncategorized"\<close>.\<close>

definition category_label :: "task \<Rightarrow> pystr" where
  "category_label t =
     (case category t of
        None \<Rightarrow> str ''Uncategorized''
      | Some c \<Rightarrow> if c \<noteq> [] then c else str ''Uncategorized'')"

definition category_counts :: "task list \<Rightarrow> pystr \<rightharpoonup> nat" where
  "category_counts todos = value_counts (map category_label todos)"

text \<open>Lines 282-285.\<close>

definition status_counts :: "task list \<Rightarrow> pystr \<rightharpoonup> nat" where
  "status_counts todos =
     value_counts (map (\<lambda>t. if get_completed t then str ''Completed'' else str ''Active'') todos)"

record analytics =
  total :: nat
  done_count :: nat
  remaining :: int
  rate :: "pyfloat option"
  by_priority :: "pystr \<rightharpoonup> nat"
  by_category :: "pystr \<rightharpoonup> nat"
  by_status :: "pystr \<rightharpoonup> nat"

text \<open>
  \<^verbatim>\<open>render_analytics\<close>, lines 236-289: nothing is computed for an empty collection
  (lines 242-244 return early).
\<close>

definition render_analytics :: "app \<Rightarrow> (py_error + analytics option) \<times> app" where
  "render_analytics s =
     (let (todos, s1) = load_todos s in
      if todos = [] then (Inr None, show_ui No_todos_to_analyze s1)
      else
        (case completion_rate todos of
           Inl e \<Rightarrow> (Inl e, s1)
         | Inr r \<Rightarrow>
             (Inr (Some \<lparr>total = length todos, done_count = completed_count todos,
                         remaining = int (length todos) - int (completed_count todos),
                         rate = r, by_priority = priority_counts todos,
                         by_category = category_counts todos,
                         by_status = status_counts todos\<rparr>), s1)))"

section \<open>Sequences of user actions\<close>

text \<open>
  What the user does: submit the add form, or press a button of the to-do with a given id.
  An edit is saved through the form of the first to-do with that id; with no such to-do
  there is no form, and the page is only drawn.
\<close>

datatype action =
  Add pystr pystr pystr | Complete int | Undo int | Edit int pystr pystr pystr
  | Delete int | Clear_completed

fun click :: "action \<Rightarrow> app \<Rightarrow> py_error + app" where
  "click (Add todo_title todo_priority todo_category) s =
     add_submitted todo_title todo_priority todo_category s"
| "click (Complete i) s = complete_clicked i s"
| "click (Undo i) s = undo_clicked i s"
| "click (Edit i new_title new_category new_priority) s =
     (case find (\<lambda>t. task_id t = Some i) (fst (load_todos s)) of
        None \<Rightarrow> Inr (snd (load_todos s))
      | Some todo \<Rightarrow> edit_saved todo new_title new_category new_priority s)"
| "click (Delete i) s = delete_clicked i s"
| "click Clear_completed s = Inr (clear_clicked s)"

text \<open>The id that an action hands out: the one \<^verbatim>\<open>get_next_id\<close> returns to an accepted add.\<close>

fun assigned :: "action \<Rightarrow> app \<Rightarrow> int list" where
  "assigned (Add todo_title todo_priority todo_category) s =
     (if strip todo_title \<noteq> []
      then (case get_next_id (fst (load_todos s)) of Inl e \<Rightarrow> [] | Inr n \<Rightarrow> [n])
      else [])"
| "assigned a s = []"

text \<open>A run of actions: the ids handed out, in order, and the final state.\<close>

fun run :: "action list \<Rightarrow> app \<Rightarrow> py_error + (int list \<times> app)" where
  "run [] s = Inr ([], s)"
| "run (a # acts) s =
     (case click a s of
        Inl e \<Rightarrow> Inl e
      | Inr s' \<Rightarrow>
          (case run acts s' of
             Inl e \<Rightarrow> Inl e
           | Inr (ids, s'') \<Rightarrow> Inr (assigned a s @ ids, s'')))"


text \<open>The file holds exactly the collection \<open>todos\<close>, and writes succeed.\<close>

definition holds :: "app \<Rightarrow> task list \<Rightarrow> bool" where
  "holds s todos \<longleftrightarrow> data_file s = Valid (JArray todos) \<and> write_fault s = None"




section \<open>Examples\<close>

text \<open>A session that starts with the data file in state \<open>f\<close> and a file system that accepts writes.\<close>

definition start_with :: "file_state \<Rightarrow> app" where
  "start_with f = \<lparr>data_file = f, write_fault = None, editing = {}, ui = []\<rparr>"

text \<open>A to-do with all five keys, as the add form writes it.\<close>

definition todo :: "int \<Rightarrow> string \<Rightarrow> string \<Rightarrow> string \<Rightarrow> bool \<Rightarrow> task" where
  "todo n t p c d =
     \<lparr>task_id = Some n, title = Some (str t), priority = Some (str p), category = Some (str c),
      completed = Some d\<rparr>"

section \<open>Auxiliary facts\<close>








lemma load_holds: "holds s todos \<Longrightarrow> load_todos s = (todos, s)"
  by (simp add: holds_def load_todos_def)


























lemma holds_show_ui: "holds (show_ui e s) todos = holds s todos"
  by (simp add: holds_def show_ui_def)

lemma holds_written: "holds s todos \<Longrightarrow> holds (s\<lparr>data_file := Valid (JArray todos')\<rparr>) todos'"
  by (simp add: holds_def)








subsection \<open>Where a save or an edit form fails\<close>

lemma save_todos_unencodable:
  "write_fault s = None \<Longrightarrow> \<not> list_all dumpable todos \<Longrightarrow>
   save_todos todos s = (False, show_ui Error_saving_todos (s\<lparr>data_file := Malformed\<rparr>))"
  by (simp add: save_todos_def)

lemma py_index_not_mem: "x \<notin> set ys \<Longrightarrow> py_index ys x = Inl ValueError"
  by (induction ys) auto

text \<open>
  A to-do whose stored priority is none of the options: building its edit form raises
  (line 147), with or without a click on Save.
\<close>

lemma edit_form_unknown_priority:
  "task_id shown = Some i \<Longrightarrow> get_priority shown \<notin> set priority_options \<Longrightarrow>
   edit_saved shown new_title new_category new_priority s = Inl ValueError"
  by (simp add: edit_saved_def item_id_def py_index_not_mem split_beta)

lemmas run_eval =
  add_submitted_def complete_clicked_def undo_clicked_def completed_clicked_def delete_clicked_def
  edit_saved_def clear_clicked_def clear_completed_def get_completed_def get_priority_def
  load_todos_def save_todos_def get_next_id_def get_id_def item_id_def new_todo_def
  show_ui_def start_with_def todo_def strip_def str_def isspace_def
  dumpable_def encodable_def priority_options_def


text \<open>
  A title that UTF-8 cannot encode, read from the JSON text \<^verbatim>\<open>"\ud800"\<close>: the first add
  fails in the save and leaves a file that does not decode; the second add then starts from
  the empty collection and hands out the id 1.
\<close>

lemma add_after_failed_save:
  "run [Add (str ''a'') (str ''Low'') (str ''''), Add (str ''b'') (str ''Low'') (str '''')]
       (start_with (Valid (JArray
          [\<lparr>task_id = Some 1, title = Some [55296], priority = Some (str ''Low''),
            category = Some (str ''''), completed = Some False\<rparr>]))) =
     Inr ([2, 1],
          \<lparr>data_file = Valid (JArray [todo 1 ''b'' ''Low'' '''' False]),
           write_fault = None, editing = {},
           ui = [Error_saving_todos, Error_loading_todos, Added_successfully, Rerun]\<rparr>)"
  by (simp add: run_eval)

subsection \<open>Rounding to binary64\<close>

lemma pow2_powi: "pow2 e = 2 powi e"
  by (simp add: pow2_def power_int_def power_inverse [symmetric] inverse_eq_divide power_one_over)

lemma pow2_pos: "0 < pow2 e"
  by (simp add: pow2_powi)

lemma pow2_add: "pow2 (a + b) = pow2 a * pow2 b"
  by (simp add: pow2_powi power_int_add)

lemma pow2_mono: "a \<le> b \<Longrightarrow> pow2 a \<le> pow2 b"
  by (simp add: pow2_powi power_int_increasing)

lemma pow2_nat: "pow2 (int k) = 2 ^ k"
  by (simp add: pow2_def)

lemma round_half_even_err: "\<bar>of_int (round_half_even x) - x\<bar> \<le> 1 / 2"
proof -
  have "of_int \<lfloor>x\<rfloor> \<le> x" "x < of_int \<lfloor>x\<rfloor> + 1"
    by linarith+
  then show ?thesis
    by (auto simp: round_half_even_def Let_def)
qed

lemma round_half_even_nonneg: "0 \<le> x \<Longrightarrow> 0 \<le> round_half_even x"
proof -
  assume "0 \<le> x"
  then have "0 \<le> \<lfloor>x\<rfloor>" by simp
  then show ?thesis
    by (auto simp: round_half_even_def Let_def)
qed

lemma floor_log2_le:
  assumes "0 < q"
  shows "pow2 (floor_log2 q) \<le> q"
proof -
  obtain a b where ab: "quotient_of q = (a, b)" by (cases "quotient_of q")
  then have b: "0 < b" by (rule quotient_of_denom_pos)
  have q: "q = of_int a / of_int b" using ab by (rule quotient_of_div)
  have a: "0 < a"
    using assms b unfolding q by (simp add: zero_less_divide_iff)
  let ?k = "bitlen a - bitlen b"
  have la: "2 ^ nat (bitlen a - 1) \<le> a" and lb: "b < 2 ^ nat (bitlen b)"
    using bitlen_bounds [OF a] bitlen_bounds [OF b] by simp_all
  have "bitlen a \<noteq> 0" "bitlen b \<noteq> 0"
    using a b by (simp_all add: bitlen_eq_zero_iff)
  then have la1: "1 \<le> bitlen a" and lb1: "1 \<le> bitlen b"
    using bitlen_nonneg [of a] bitlen_nonneg [of b] by linarith+
  have "pow2 (?k - 1) = pow2 (int (nat (bitlen a - 1))) / pow2 (int (nat (bitlen b)))"
    using la1 lb1 by (simp add: pow2_powi power_int_diff)
  also have "\<dots> = 2 ^ nat (bitlen a - 1) / 2 ^ nat (bitlen b)"
    by (simp only: pow2_nat)
  also have "\<dots> \<le> of_int a / of_int b"
  proof -
    have A: "(2::rat) ^ nat (bitlen a - 1) \<le> of_int a"
      using la by (metis of_int_le_iff of_int_numeral of_int_power)
    have B: "(of_int b :: rat) \<le> 2 ^ nat (bitlen b)"
      using lb by (metis less_imp_le of_int_le_iff of_int_numeral of_int_power)
    have C: "(0::rat) < of_int b" "(0::rat) \<le> of_int a"
      using a b by simp_all
    show ?thesis
      by (rule frac_le) (use A B C in simp_all)
  qed
  finally have low: "pow2 (?k - 1) \<le> q" unfolding q .
  show ?thesis
    using low by (simp add: floor_log2_def ab Let_def)
qed

lemma fl_err: "\<bar>fl q - q\<bar> \<le> \<bar>q\<bar> / 9007199254740992 + pow2 (- 1075)"
proof (cases "q = 0")
  case True
  then show ?thesis using pow2_pos [of "- 1075"] by (simp add: fl_def)
next
  case False
  define e where "e = max (floor_log2 \<bar>q\<bar> - 52) (- 1074)"
  have p: "0 < pow2 e" by (rule pow2_pos)
  have f: "fl q = of_int (round_half_even (q / pow2 e)) * pow2 e"
    using False by (simp add: fl_def e_def Let_def)
  have "\<bar>of_int (round_half_even (q / pow2 e)) - q / pow2 e\<bar> \<le> 1 / 2"
    by (rule round_half_even_err)
  then have "\<bar>of_int (round_half_even (q / pow2 e)) - q / pow2 e\<bar> * pow2 e \<le> 1 / 2 * pow2 e"
    using p by (simp add: mult_right_mono)
  moreover have "\<bar>of_int (round_half_even (q / pow2 e)) - q / pow2 e\<bar> * pow2 e =
      \<bar>of_int (round_half_even (q / pow2 e)) * pow2 e - q\<bar>"
  proof -
    have "\<bar>of_int (round_half_even (q / pow2 e)) - q / pow2 e\<bar> * pow2 e =
        \<bar>(of_int (round_half_even (q / pow2 e)) - q / pow2 e) * pow2 e\<bar>"
      using p by (simp add: abs_mult)
    also have "(of_int (round_half_even (q / pow2 e)) - q / pow2 e) * pow2 e =
        of_int (round_half_even (q / pow2 e)) * pow2 e - q"
      using p by (simp add: algebra_simps)
    finally show ?thesis .
  qed
  ultimately have err: "\<bar>fl q - q\<bar> \<le> pow2 e / 2"
    unfolding f by simp
  have "pow2 e / 2 \<le> \<bar>q\<bar> / 9007199254740992 + pow2 (- 1075)"
  proof (cases "floor_log2 \<bar>q\<bar> - 52 \<le> - 1074")
    case True
    then have "e = - 1075 + 1" by (simp add: e_def)
    then have "pow2 e = pow2 (- 1075) * pow2 1" by (simp only: pow2_add)
    moreover have "pow2 1 = 2" by (simp add: pow2_def)
    ultimately have "pow2 e / 2 = pow2 (- 1075)" by simp
    then show ?thesis by simp
  next
    case False
    then have "e = floor_log2 \<bar>q\<bar> + (- 52)" by (simp add: e_def)
    then have "pow2 e = pow2 (floor_log2 \<bar>q\<bar>) * pow2 (- 52)" by (simp only: pow2_add)
    also have "pow2 (- 52) = 1 / 4503599627370496" by (simp add: pow2_def)
    finally have "pow2 e / 2 = pow2 (floor_log2 \<bar>q\<bar>) / 9007199254740992" by simp
    moreover have "pow2 (floor_log2 \<bar>q\<bar>) \<le> \<bar>q\<bar>"
      using \<open>q \<noteq> 0\<close> by (intro floor_log2_le) simp
    ultimately show ?thesis using pow2_pos [of "- 1075"] by (simp add: divide_right_mono)
  qed
  with err show ?thesis by simp
qed

lemma fl_nonneg: "0 \<le> q \<Longrightarrow> 0 \<le> fl q"
  using pow2_pos by (simp add: fl_def Let_def round_half_even_nonneg less_imp_le)

lemma pow2_tiny: "pow2 (- 1075) \<le> 1 / 9007199254740992"
proof -
  have "pow2 (- 1075) \<le> pow2 (- 53)" by (rule pow2_mono) simp
  also have "pow2 (- 53) = 1 / 9007199254740992" by (simp add: pow2_def)
  finally show ?thesis .
qed

lemma rate_bound:
  assumes "0 \<le> q" and "q \<le> 1"
  shows "\<bar>py_round1 (fmul (fl q) 100) - 100 * q\<bar> \<le> 1 / 20 + 1 / 2 ^ 44"
    and "\<bar>fl q\<bar> < 2"
    and "0 \<le> py_round1 (fmul (fl q) 100)"
proof -
  define v where "v = pow2 (- 1075)"
  define x1 where "x1 = fl q"
  define x2 where "x2 = fl (x1 * 100)"
  define D :: rat where "D = of_int (round_half_even (x2 * 10))"
  define r where "r = fl (D / 10)"
  have v: "0 < v" "v \<le> 1 / 9007199254740992"
    unfolding v_def by (rule pow2_pos, rule pow2_tiny)
  have x1: "0 \<le> x1" unfolding x1_def using assms(1) by (rule fl_nonneg)
  then have x2: "0 \<le> x2" unfolding x2_def by (intro fl_nonneg) simp
  then have "0 \<le> round_half_even (x2 * 10)" by (intro round_half_even_nonneg) simp
  then have D: "0 \<le> D" unfolding D_def by simp
  have e1: "\<bar>x1 - q\<bar> \<le> \<bar>q\<bar> / 9007199254740992 + v"
    unfolding x1_def v_def by (rule fl_err)
  have e2: "\<bar>x2 - x1 * 100\<bar> \<le> \<bar>x1 * 100\<bar> / 9007199254740992 + v"
    unfolding x2_def v_def by (rule fl_err)
  have e3: "\<bar>D - x2 * 10\<bar> \<le> 1 / 2"
    unfolding D_def by (rule round_half_even_err)
  have e4: "\<bar>r - D / 10\<bar> \<le> \<bar>D / 10\<bar> / 9007199254740992 + v"
    unfolding r_def v_def by (rule fl_err)
  have r: "py_round1 (fmul (fl q) 100) = r"
    by (simp add: py_round1_def fmul_def r_def D_def x2_def x1_def)
  have "\<bar>r - 100 * q\<bar> \<le> 1 / 20 + 1 / 17592186044416"
    using assms v x1 x2 D e1 e2 e3 e4 by linarith
  then show "\<bar>py_round1 (fmul (fl q) 100) - 100 * q\<bar> \<le> 1 / 20 + 1 / 2 ^ 44"
    unfolding r by simp
  show "\<bar>fl q\<bar> < 2"
    using assms v x1 e1 unfolding x1_def [symmetric] by linarith
  have "0 \<le> r" unfolding r_def using D by (intro fl_nonneg) simp
  then show "0 \<le> py_round1 (fmul (fl q) 100)" unfolding r .
qed

lemma completed_count_le: "completed_count todos \<le> length todos"
  by (simp add: completed_count_def)

lemma completion_rate_nonempty:
  assumes "todos \<noteq> []"
  shows "completion_rate todos =
    Inr (Some (py_round1 (fmul (fl (of_nat (completed_count todos) / of_nat (length todos))) 100)))"
proof -
  let ?q = "of_nat (completed_count todos) / of_nat (length todos) :: rat"
  have n: "0 < length todos" using assms by simp
  have q: "0 \<le> ?q" "?q \<le> 1"
    using n completed_count_le [of todos] by (simp_all add: divide_le_eq_1)
  have "\<bar>fl ?q\<bar> < 2" using q by (rule rate_bound(2))
  moreover have "2 \<le> pow2 1024"
  proof -
    have "pow2 1 \<le> pow2 1024" by (rule pow2_mono) simp
    moreover have "pow2 1 = 2" by (simp add: pow2_def)
    ultimately show ?thesis by simp
  qed
  ultimately have "\<not> pow2 1024 \<le> \<bar>fl ?q\<bar>" by linarith
  then show ?thesis
    using n by (simp add: completion_rate_def truediv_def Let_def)
qed

lemma abs_scale:
  fixes a p q :: rat
  assumes "0 < p"
  shows "\<bar>a * p - q\<bar> = \<bar>a - q / p\<bar> * p"
proof -
  have "a * p - q = (a - q / p) * p"
    using assms by (simp add: field_simps)
  then have "\<bar>a * p - q\<bar> = \<bar>a - q / p\<bar> * \<bar>p\<bar>"
    by (simp only: abs_mult)
  with assms show ?thesis by simp
qed

lemma int_apart:
  fixes j k :: int
  assumes "j \<noteq> k"
  shows "(1::rat) \<le> \<bar>of_int j - of_int k\<bar>"
proof -
  from assms have "1 \<le> \<bar>j - k\<bar>" by simp
  then have "(of_int 1 :: rat) \<le> of_int \<bar>j - k\<bar>" by (simp only: of_int_le_iff)
  then show ?thesis by simp
qed

lemma round_half_even_nearest: "\<bar>of_int (round_half_even x) - x\<bar> \<le> \<bar>of_int j - x\<bar>"
proof (cases "j = round_half_even x")
  case True
  then show ?thesis by simp
next
  case False
  then have "(1::rat) \<le> \<bar>of_int j - of_int (round_half_even x)\<bar>" by (rule int_apart)
  with round_half_even_err [of x] show ?thesis by linarith
qed

lemma round_half_even_half: "\<bar>of_int (round_half_even x) - x\<bar> = 1 / 2 \<Longrightarrow> even (round_half_even x)"
proof -
  assume a: "\<bar>of_int (round_half_even x) - x\<bar> = 1 / 2"
  have f: "of_int \<lfloor>x\<rfloor> \<le> x" "x < of_int \<lfloor>x\<rfloor> + 1"
    by linarith+
  show ?thesis
  proof (cases "x - of_int \<lfloor>x\<rfloor> = 1 / 2")
    case True
    then show ?thesis by (simp add: round_half_even_def Let_def)
  next
    case False
    with a f show ?thesis
      by (auto simp: round_half_even_def Let_def split: if_splits)
  qed
qed

lemma round_half_even_tie:
  assumes "j \<noteq> round_half_even x" and "\<bar>of_int j - x\<bar> = \<bar>of_int (round_half_even x) - x\<bar>"
  shows "even (round_half_even x)"
proof -
  have "(1::rat) \<le> \<bar>of_int j - of_int (round_half_even x)\<bar>"
    using assms(1) by (rule int_apart)
  with assms(2) round_half_even_err [of x] have "\<bar>of_int (round_half_even x) - x\<bar> = 1 / 2"
    by linarith
  then show ?thesis by (rule round_half_even_half)
qed

lemma nearest_tenth_round: "nearest_tenth x (round_half_even (x * 10))"
proof -
  have s: "\<bar>of_int j / 10 - x\<bar> = \<bar>of_int j - x * 10\<bar> / 10" for j :: int
  proof -
    have "of_int j / 10 - x = (of_int j - x * 10) / 10" by simp
    then show ?thesis by (simp only: abs_divide)
  qed
  have "\<bar>of_int (round_half_even (x * 10)) / 10 - x\<bar> \<le> \<bar>of_int j / 10 - x\<bar>" for j
    unfolding s using round_half_even_nearest [of "x * 10" j] by simp
  moreover have "even (round_half_even (x * 10))"
    if "j \<noteq> round_half_even (x * 10)"
      and "\<bar>of_int j / 10 - x\<bar> = \<bar>of_int (round_half_even (x * 10)) / 10 - x\<bar>" for j
  proof -
    from that(2) have "\<bar>of_int j - x * 10\<bar> = \<bar>of_int (round_half_even (x * 10)) - x * 10\<bar>"
      unfolding s by simp
    with that(1) show ?thesis by (rule round_half_even_tie)
  qed
  ultimately show ?thesis
    unfolding nearest_tenth_def by blast
qed

lemma floor_log2_less:
  assumes "0 < q"
  shows "q < pow2 (floor_log2 q + 1)"
proof -
  obtain a b where ab: "quotient_of q = (a, b)" by (cases "quotient_of q")
  then have b: "0 < b" by (rule quotient_of_denom_pos)
  have q: "q = of_int a / of_int b" using ab by (rule quotient_of_div)
  have a: "0 < a"
    using assms b unfolding q by (simp add: zero_less_divide_iff)
  let ?k = "bitlen a - bitlen b"
  have la: "a < 2 ^ nat (bitlen a)" and lb: "2 ^ nat (bitlen b - 1) \<le> b"
    using bitlen_bounds [OF a] bitlen_bounds [OF b] by simp_all
  have "bitlen a \<noteq> 0" "bitlen b \<noteq> 0"
    using a b by (simp_all add: bitlen_eq_zero_iff)
  then have la1: "1 \<le> bitlen a" and lb1: "1 \<le> bitlen b"
    using bitlen_nonneg [of a] bitlen_nonneg [of b] by linarith+
  have A: "(of_int a :: rat) < 2 ^ nat (bitlen a)"
    using la by (metis of_int_less_iff of_int_numeral of_int_power)
  have B: "(2::rat) ^ nat (bitlen b - 1) \<le> of_int b"
    using lb by (metis of_int_le_iff of_int_numeral of_int_power)
  have P: "(0::rat) < 2 ^ nat (bitlen b - 1)" by simp
  have "of_int a / of_int b < (2::rat) ^ nat (bitlen a) / 2 ^ nat (bitlen b - 1)"
    by (rule frac_less) (use A B P a b in simp_all)
  also have "\<dots> = pow2 (int (nat (bitlen a))) / pow2 (int (nat (bitlen b - 1)))"
    by (simp only: pow2_nat)
  also have "\<dots> = pow2 (?k + 1)"
  proof -
    have "?k + 1 + int (nat (bitlen b - 1)) = int (nat (bitlen a))"
      using la1 lb1 by simp
    then have "pow2 (?k + 1) * pow2 (int (nat (bitlen b - 1))) = pow2 (int (nat (bitlen a)))"
      by (simp only: pow2_add [symmetric])
    then show ?thesis
      using pow2_pos [of "int (nat (bitlen b - 1))"] by (simp add: field_simps)
  qed
  finally have up: "q < pow2 (?k + 1)" unfolding q .
  show ?thesis
    using up by (simp add: floor_log2_def ab Let_def)
qed

lemma pow2_52: "pow2 (e + 52) = pow2 e * 2 ^ 52"
  using pow2_add [of e 52] pow2_nat [of 52] by simp

lemma pow2_53: "pow2 (e + 53) = pow2 e * 2 ^ 53"
  using pow2_add [of e 53] pow2_nat [of 53] by simp

lemma pow2_Suc: "pow2 (e + 1) = 2 * pow2 e"
  using pow2_add [of e 1] pow2_nat [of 1] by simp

lemma on_grid:
  assumes "binary64 z" and "pow2 (e + 52) \<le> \<bar>z\<bar> \<or> e = - 1074"
  shows "\<exists>j::int. z = of_int j * pow2 e"
proof -
  from assms(1) obtain m e' where z: "z = of_int m * pow2 e'" and m: "\<bar>m\<bar> < 2 ^ 53"
    and e': "- 1074 \<le> e'"
    unfolding binary64_def by blast
  have le: "e \<le> e'"
  proof (rule ccontr)
    assume "\<not> e \<le> e'"
    then have lt: "e' + 53 \<le> e + 52" by simp
    with e' have "e \<noteq> - 1074" by simp
    with assms(2) have big: "pow2 (e + 52) \<le> \<bar>z\<bar>" by simp
    have "(of_int \<bar>m\<bar> :: rat) < of_int (2 ^ 53)"
      using m by (simp only: of_int_less_iff)
    then have "(of_int \<bar>m\<bar> :: rat) < 2 ^ 53" by simp
    then have "of_int \<bar>m\<bar> * pow2 e' < 2 ^ 53 * pow2 e'"
      using pow2_pos [of e'] by (simp only: mult_strict_right_mono)
    moreover have "\<bar>z\<bar> = of_int \<bar>m\<bar> * pow2 e'"
      unfolding z using pow2_pos [of e'] by (simp add: abs_mult)
    moreover have "2 ^ 53 * pow2 e' = pow2 (e' + 53)"
      by (simp add: pow2_53)
    moreover have "pow2 (e' + 53) \<le> pow2 (e + 52)"
      using lt by (rule pow2_mono)
    ultimately have "\<bar>z\<bar> < pow2 (e + 52)" by simp
    with big show False by simp
  qed
  then obtain n where n: "e' = e + int n"
    using zle_iff_zadd by auto
  have "pow2 e' = pow2 e * 2 ^ n"
    using pow2_add [of e "int n"] by (simp add: n pow2_nat)
  then have "z = of_int (m * 2 ^ n) * pow2 e"
    unfolding z by simp
  then show ?thesis ..
qed

lemma fl_scale:
  assumes "0 < q" and "q < pow2 1023" and e: "e = max (floor_log2 q - 52) (- 1074)"
  shows "fl q = of_int (round_half_even (q / pow2 e)) * pow2 e"
    and "- 1074 \<le> e" and "e \<le> 970"
    and "q / pow2 e < 2 ^ 53"
    and "e = - 1074 \<or> 2 ^ 52 \<le> q / pow2 e"
proof -
  let ?k = "floor_log2 q"
  have p: "0 < pow2 e" by (rule pow2_pos)
  show "fl q = of_int (round_half_even (q / pow2 e)) * pow2 e"
    using assms(1) by (simp add: fl_def e Let_def)
  show "- 1074 \<le> e" by (simp add: e)
  have lo: "pow2 ?k \<le> q" using assms(1) by (rule floor_log2_le)
  have hi: "q < pow2 (?k + 1)" using assms(1) by (rule floor_log2_less)
  have "\<not> 1023 \<le> ?k"
  proof
    assume "1023 \<le> ?k"
    then have "pow2 1023 \<le> pow2 ?k" by (rule pow2_mono)
    with lo assms(2) show False by simp
  qed
  then show "e \<le> 970" by (simp add: e)
  have "?k + 1 \<le> e + 53" by (simp add: e)
  then have "pow2 (?k + 1) \<le> pow2 (e + 53)" by (rule pow2_mono)
  with hi have "q < pow2 e * 2 ^ 53" by (simp add: pow2_53)
  then show "q / pow2 e < 2 ^ 53"
    using p by (simp add: pos_divide_less_eq mult.commute)
  show "e = - 1074 \<or> 2 ^ 52 \<le> q / pow2 e"
  proof (cases "e = - 1074")
    case True
    then show ?thesis by simp
  next
    case False
    then have "?k = e + 52" by (simp add: e max_def split: if_splits)
    with lo have "pow2 e * 2 ^ 52 \<le> q" by (simp add: pow2_52)
    then have "2 ^ 52 \<le> q / pow2 e"
      using p by (simp add: pos_le_divide_eq mult.commute)
    then show ?thesis by simp
  qed
qed

lemma fl_canonical:
  assumes q: "0 < q" "q < pow2 1023"
  shows "\<exists>m e. fl q = of_int m * pow2 e \<and> \<bar>m\<bar> < 2 ^ 53 \<and> - 1074 \<le> e \<and> e \<le> 971 \<and>
           (2 ^ 52 \<le> \<bar>m\<bar> \<or> e = - 1074) \<and>
           (even (round_half_even (q / pow2 (max (floor_log2 q - 52) (- 1074)))) \<longrightarrow> even m)"
proof -
  define e where "e = max (floor_log2 q - 52) (- 1074)"
  define t where "t = q / pow2 e"
  define M where "M = round_half_even t"
  note s = fl_scale [OF q e_def]
  have p: "0 < pow2 e" by (rule pow2_pos)
  have f: "fl q = of_int M * pow2 e"
    using s(1) by (simp add: M_def t_def)
  have t53: "t < 2 ^ 53" using s(4) by (simp add: t_def)
  have t0: "0 \<le> t" using q(1) p by (simp add: t_def)
  have M0: "0 \<le> M" unfolding M_def using t0 by (rule round_half_even_nonneg)
  have M53: "M \<le> 2 ^ 53"
  proof -
    have "\<bar>of_int M - t\<bar> \<le> \<bar>of_int (2 ^ 53) - t\<bar>"
      unfolding M_def by (rule round_half_even_nearest)
    with t53 have "(of_int M :: rat) \<le> of_int (2 ^ 53)" by simp
    then show ?thesis by (simp only: of_int_le_iff)
  qed
  have M52: "2 ^ 52 \<le> M" if "e \<noteq> - 1074"
  proof -
    from that s(5) have t52: "2 ^ 52 \<le> t" by (simp add: t_def)
    have "\<bar>of_int M - t\<bar> \<le> \<bar>of_int (2 ^ 52) - t\<bar>"
      unfolding M_def by (rule round_half_even_nearest)
    with t52 have "(of_int (2 ^ 52) :: rat) \<le> of_int M" by simp
    then show ?thesis by (simp only: of_int_le_iff)
  qed
  show ?thesis
  proof (cases "M = 2 ^ 53")
    case True
    have "fl q = of_int (2 ^ 52) * pow2 (e + 1)"
      unfolding f True by (simp add: pow2_Suc)
    moreover have "e + 1 \<le> 971" using s(3) by simp
    moreover have "- 1074 \<le> e + 1" using s(2) by simp
    ultimately show ?thesis
      by (intro exI [of _ "2 ^ 52"] exI [of _ "e + 1"]) simp
  next
    case False
    with M53 have "M < 2 ^ 53" by simp
    with M0 have "\<bar>M\<bar> < 2 ^ 53" by simp
    moreover have "2 ^ 52 \<le> \<bar>M\<bar> \<or> e = - 1074"
      using M52 M0 by auto
    moreover have "e \<le> 971" using s(3) by simp
    ultimately show ?thesis
      using f s(2) unfolding M_def t_def e_def
      by (intro exI [of _ "round_half_even (q / pow2 (max (floor_log2 q - 52) (- 1074)))"]
          exI [of _ "max (floor_log2 q - 52) (- 1074)"]) simp
  qed
qed

lemma fl_nearest_pos:
  assumes q: "0 < q" "q < pow2 1023"
  shows "nearest64 q (fl q)"
proof -
  define e where "e = max (floor_log2 q - 52) (- 1074)"
  define t where "t = q / pow2 e"
  define M where "M = round_half_even t"
  note s = fl_scale [OF q e_def]
  have p: "0 < pow2 e" by (rule pow2_pos)
  have f: "fl q = of_int M * pow2 e"
    using s(1) by (simp add: M_def t_def)
  from fl_canonical [OF q] obtain m e' where
    c: "fl q = of_int m * pow2 e'" "\<bar>m\<bar> < 2 ^ 53" "- 1074 \<le> e'" "e' \<le> 971"
      "2 ^ 52 \<le> \<bar>m\<bar> \<or> e' = - 1074" "even M \<longrightarrow> even m"
    unfolding M_def t_def e_def by blast
  have b: "binary64 (fl q)"
    unfolding binary64_def using c(1-4) by blast
  have ev: "even64 (fl q)" if "even M"
    unfolding even64_def using c that by blast
  have dist: "\<bar>fl q - q\<bar> = \<bar>of_int M - t\<bar> * pow2 e"
    unfolding f t_def using p by (rule abs_scale)
  have zdist: "\<bar>z - q\<bar> = \<bar>z / pow2 e - t\<bar> * pow2 e" for z
    using abs_scale [OF p, of "z / pow2 e" q] p by (simp add: t_def)
  have grid: "(\<exists>j. z = of_int j * pow2 e) \<or> \<bar>of_int M - t\<bar> < \<bar>z / pow2 e - t\<bar>"
    if z: "binary64 z" for z
  proof (cases "pow2 (e + 52) \<le> \<bar>z\<bar> \<or> e = - 1074")
    case True
    with z have "\<exists>j. z = of_int j * pow2 e" by (rule on_grid)
    then show ?thesis ..
  next
    case False
    then have zs: "\<bar>z\<bar> < pow2 e * 2 ^ 52" and ne: "e \<noteq> - 1074"
      by (simp_all add: pow2_52)
    have "\<bar>z / pow2 e\<bar> = \<bar>z\<bar> / pow2 e"
      using p by (simp add: abs_divide)
    also have "\<dots> < 2 ^ 52"
      using zs p by (simp add: pos_divide_less_eq mult.commute)
    finally have u: "\<bar>z / pow2 e\<bar> < 2 ^ 52" .
    have t52: "2 ^ 52 \<le> t" using s(5) ne by (simp add: t_def)
    define w where "w = z / pow2 e"
    have "\<bar>of_int M - t\<bar> \<le> \<bar>of_int (2 ^ 52) - t\<bar>"
      unfolding M_def by (rule round_half_even_nearest)
    then have n52: "\<bar>of_int M - t\<bar> \<le> \<bar>4503599627370496 - t\<bar>" by simp
    have u': "\<bar>w\<bar> < 4503599627370496" and t52': "4503599627370496 \<le> t"
      using u t52 by (simp_all add: w_def)
    from n52 u' t52' have "\<bar>of_int M - t\<bar> < \<bar>w - t\<bar>" by linarith
    then show ?thesis unfolding w_def ..
  qed
  have scaled: "\<bar>of_int M - t\<bar> \<le> \<bar>z / pow2 e - t\<bar>" if z: "binary64 z" for z
    using grid [OF z]
  proof
    assume "\<exists>j. z = of_int j * pow2 e"
    then obtain j where "z = of_int j * pow2 e" ..
    then have "z / pow2 e = of_int j" using p by simp
    then show ?thesis
      unfolding M_def using round_half_even_nearest [of t j] by simp
  next
    assume "\<bar>of_int M - t\<bar> < \<bar>z / pow2 e - t\<bar>"
    then show ?thesis by simp
  qed
  have n: "\<bar>fl q - q\<bar> \<le> \<bar>z - q\<bar>" if z: "binary64 z" for z
    unfolding dist zdist [of z] using scaled [OF z] p by (simp only: mult_right_mono less_imp_le)
  have tie: "even64 (fl q)" if z: "binary64 z" and d: "z \<noteq> fl q" and eq: "\<bar>z - q\<bar> = \<bar>fl q - q\<bar>" for z
  proof -
    from eq have eq': "\<bar>z / pow2 e - t\<bar> = \<bar>of_int M - t\<bar>"
      unfolding dist zdist [of z] using p by simp
    with grid [OF z] obtain j where j: "z = of_int j * pow2 e" by auto
    then have u: "z / pow2 e = of_int j" using p by simp
    from d j f have "j \<noteq> M" by auto
    moreover from eq' u have "\<bar>of_int j - t\<bar> = \<bar>of_int M - t\<bar>" by simp
    ultimately have "even M"
      unfolding M_def by (rule round_half_even_tie)
    then show ?thesis by (rule ev)
  qed
  show ?thesis
    unfolding nearest64_def using b n tie by blast
qed

lemma binary64_0: "binary64 0"
  unfolding binary64_def by (intro exI [of _ 0]) simp

lemma fl_nearest:
  assumes "0 \<le> q" and "q < pow2 1023"
  shows "nearest64 q (fl q)"
proof (cases "q = 0")
  case True
  then show ?thesis
    by (simp add: nearest64_def fl_def binary64_0)
next
  case False
  with assms(1) have "0 < q" by simp
  then show ?thesis using assms(2) by (rule fl_nearest_pos)
qed

lemma pow2_1023: "1024 \<le> pow2 1023"
proof -
  have "pow2 10 \<le> pow2 1023" by (rule pow2_mono) simp
  moreover have "pow2 10 = 1024" using pow2_nat [of 10] by simp
  ultimately show ?thesis by simp
qed

lemma completion_rate_steps:
  assumes "0 \<le> q" and "q \<le> 1"
  shows "nearest64 q (fl q)"
    and "nearest64 (fl q * 100) (fmul (fl q) 100)"
    and "nearest_tenth (fmul (fl q) 100) (round_half_even (fmul (fl q) 100 * 10))"
    and "nearest64 (of_int (round_half_even (fmul (fl q) 100 * 10)) / 10) (py_round1 (fmul (fl q) 100))"
proof -
  define v where "v = pow2 (- 1075)"
  define x1 where "x1 = fl q"
  define x2 where "x2 = fl (x1 * 100)"
  define D :: rat where "D = of_int (round_half_even (x2 * 10))"
  have v: "0 < v" "v \<le> 1 / 9007199254740992"
    unfolding v_def by (rule pow2_pos, rule pow2_tiny)
  have x1: "0 \<le> x1" unfolding x1_def using assms(1) by (rule fl_nonneg)
  then have x2: "0 \<le> x2" unfolding x2_def by (intro fl_nonneg) simp
  then have "0 \<le> round_half_even (x2 * 10)" by (intro round_half_even_nonneg) simp
  then have D: "0 \<le> D" unfolding D_def by simp
  have e1: "\<bar>x1 - q\<bar> \<le> \<bar>q\<bar> / 9007199254740992 + v"
    unfolding x1_def v_def by (rule fl_err)
  have e2: "\<bar>x2 - x1 * 100\<bar> \<le> \<bar>x1 * 100\<bar> / 9007199254740992 + v"
    unfolding x2_def v_def by (rule fl_err)
  have e3: "\<bar>D - x2 * 10\<bar> \<le> 1 / 2"
    unfolding D_def by (rule round_half_even_err)
  have b1: "q < pow2 1023" using assms(2) pow2_1023 by linarith
  have b2: "x1 * 100 < pow2 1023" using assms v x1 e1 pow2_1023 by linarith
  have b3: "D / 10 < pow2 1023" using assms v x1 x2 D e1 e2 e3 pow2_1023 by linarith
  show "nearest64 q (fl q)"
    using assms(1) b1 by (rule fl_nearest)
  have "nearest64 (x1 * 100) (fl (x1 * 100))"
    using x1 b2 by (intro fl_nearest) simp_all
  then show "nearest64 (fl q * 100) (fmul (fl q) 100)"
    by (simp add: fmul_def x1_def)
  show "nearest_tenth (fmul (fl q) 100) (round_half_even (fmul (fl q) 100 * 10))"
    by (rule nearest_tenth_round)
  have "nearest64 (D / 10) (fl (D / 10))"
    using D b3 by (intro fl_nearest) simp_all
  then show "nearest64 (of_int (round_half_even (fmul (fl q) 100 * 10)) / 10) (py_round1 (fmul (fl q) 100))"
    by (simp add: py_round1_def fmul_def D_def x2_def x1_def)
qed

subsection \<open>The rounding rules determine the result\<close>

lemma between_nearer:
  fixes q r r' z :: rat
  assumes "\<bar>r - q\<bar> = \<bar>r' - q\<bar>" and "r < z" and "z < r'"
  shows "\<bar>z - q\<bar> < \<bar>r - q\<bar>"
  using assms by linarith

lemma even64_neighbours:
  assumes "even64 r"
  shows "\<exists>m e. r = of_int m * pow2 e \<and> even m \<and>
           binary64 (of_int (m + 1) * pow2 e) \<and> binary64 (of_int (m - 1) * pow2 e)"
proof -
  from assms obtain m e where r: "r = of_int m * pow2 e" and ev: "even m"
    and m: "\<bar>m\<bar> < 2 ^ 53" and e: "- 1074 \<le> e" "e \<le> 971"
    unfolding even64_def by blast
  have "m \<noteq> 2 ^ 53 - 1" "m \<noteq> 1 - 2 ^ 53"
    using ev by auto
  with m have "\<bar>m + 1\<bar> < 2 ^ 53" "\<bar>m - 1\<bar> < 2 ^ 53" by simp_all
  then have "binary64 (of_int (m + 1) * pow2 e)" "binary64 (of_int (m - 1) * pow2 e)"
    unfolding binary64_def using e by blast+
  with r ev show ?thesis by blast
qed

lemma even_gap:
  fixes a b :: int
  shows "even a \<Longrightarrow> even b \<Longrightarrow> a < b \<Longrightarrow> a + 1 < b"
  by presburger

lemma of_int_pow2_less:
  "of_int a * pow2 e < of_int b * pow2 e \<longleftrightarrow> a < b"
  using pow2_pos [of e] by (simp add: mult_less_cancel_right)

lemma pow2_shift: "of_int m * pow2 (e + int n) = of_int (m * 2 ^ n) * pow2 e"
  using pow2_add [of e "int n"] by (simp add: pow2_nat)

lemma nearest64_unique_less:
  assumes r: "nearest64 q r" and r': "nearest64 q r'" and lt: "r < r'"
  shows False
proof -
  have b: "binary64 r" "binary64 r'"
    using r r' by (simp_all add: nearest64_def)
  have n: "\<bar>r - q\<bar> \<le> \<bar>z - q\<bar>" if "binary64 z" for z
    using r that by (simp add: nearest64_def)
  have n': "\<bar>r' - q\<bar> \<le> \<bar>z - q\<bar>" if "binary64 z" for z
    using r' that by (simp add: nearest64_def)
  have eq: "\<bar>r - q\<bar> = \<bar>r' - q\<bar>"
    using n [OF b(2)] n' [OF b(1)] by simp
  have ev: "even64 r"
    using r b(2) lt eq by (auto simp: nearest64_def)
  have ev': "even64 r'"
    using r' b(1) lt eq by (auto simp: nearest64_def)
  have none: False if "binary64 z" "r < z" "z < r'" for z
    using between_nearer [OF eq that(2,3)] n [OF that(1)] by simp
  from even64_neighbours [OF ev] obtain m e where
    m: "r = of_int m * pow2 e" "even m" "binary64 (of_int (m + 1) * pow2 e)"
    by blast
  from even64_neighbours [OF ev'] obtain m' e' where
    m': "r' = of_int m' * pow2 e'" "even m'" "binary64 (of_int (m' - 1) * pow2 e')"
    by blast
  show False
  proof (cases "e \<le> e'")
    case True
    then obtain k where k: "e' = e + int k"
      using zle_iff_zadd by auto
    have r'': "r' = of_int (m' * 2 ^ k) * pow2 e"
      unfolding m'(1) k by (rule pow2_shift)
    from lt have "m < m' * 2 ^ k"
      unfolding m(1) r'' by (simp only: of_int_pow2_less)
    moreover have "even (m' * 2 ^ k)" using m'(2) by simp
    ultimately have "m + 1 < m' * 2 ^ k"
      using m(2) by (intro even_gap)
    then have "of_int (m + 1) * pow2 e < r'"
      unfolding r'' by (simp only: of_int_pow2_less)
    moreover have "r < of_int (m + 1) * pow2 e"
      unfolding m(1) using of_int_pow2_less [of m e "m + 1"] by simp
    ultimately show False using m(3) by (intro none)
  next
    case False
    then have "e' \<le> e" by simp
    then obtain k where k: "e = e' + int k"
      using zle_iff_zadd by auto
    have r'': "r = of_int (m * 2 ^ k) * pow2 e'"
      unfolding m(1) k by (rule pow2_shift)
    from lt have "m * 2 ^ k < m'"
      unfolding m'(1) r'' by (simp only: of_int_pow2_less)
    moreover have "even (m * 2 ^ k)" using m(2) by simp
    ultimately have "m * 2 ^ k + 1 < m'"
      using m'(2) by (intro even_gap)
    then have "m * 2 ^ k < m' - 1" by simp
    then have "r < of_int (m' - 1) * pow2 e'"
      unfolding r'' by (simp only: of_int_pow2_less)
    moreover have "of_int (m' - 1) * pow2 e' < r'"
      unfolding m'(1) using of_int_pow2_less [of "m' - 1" e' m'] by simp
    ultimately show False using m'(3) by (intro none)
  qed
qed

lemma nearest64_unique: "nearest64 q r \<Longrightarrow> nearest64 q r' \<Longrightarrow> r = r'"
  using nearest64_unique_less [of q r r'] nearest64_unique_less [of q r' r] by fastforce

lemma nearest_tenth_unique:
  assumes d: "nearest_tenth x d" and d': "nearest_tenth x d'"
  shows "d = d'"
proof -
  have less: False if a: "nearest_tenth x a" and b: "nearest_tenth x b" and lt: "a < b" for a b
  proof -
    have n: "\<bar>of_int a / 10 - x\<bar> \<le> \<bar>of_int j / 10 - x\<bar>" for j
      using a by (simp add: nearest_tenth_def)
    have n': "\<bar>of_int b / 10 - x\<bar> \<le> \<bar>of_int j / 10 - x\<bar>" for j
      using b by (simp add: nearest_tenth_def)
    have eq: "\<bar>of_int a / 10 - x\<bar> = \<bar>of_int b / 10 - x\<bar>"
      using n [of b] n' [of a] by simp
    have "even a" using a lt eq by (auto simp: nearest_tenth_def)
    moreover have "even b" using b lt eq by (auto simp: nearest_tenth_def)
    ultimately have "a + 1 < b" using lt by (rule even_gap)
    then have "(of_int a :: rat) / 10 < of_int (a + 1) / 10" "(of_int (a + 1) :: rat) / 10 < of_int b / 10"
      by simp_all
    from between_nearer [OF eq this] n [of "a + 1"] show False by simp
  qed
  show ?thesis
    using less [OF d d'] less [OF d' d] by fastforce
qed

lemma rounded_percentage_unique:
  assumes "rounded_percentage p r" and "rounded_percentage p r'"
  shows "r = r'"
proof -
  from assms(1) obtain q x d where
    a: "nearest64 p q" "nearest64 (q * 100) x" "nearest_tenth x d" "nearest64 (of_int d / 10) r"
    unfolding rounded_percentage_def by blast
  from assms(2) obtain q' x' d' where
    b: "nearest64 p q'" "nearest64 (q' * 100) x'" "nearest_tenth x' d'" "nearest64 (of_int d' / 10) r'"
    unfolding rounded_percentage_def by blast
  have q: "q' = q" using b(1) a(1) by (rule nearest64_unique)
  have x: "x' = x" using b(2) a(2) unfolding q by (rule nearest64_unique)
  have d: "d' = d" using b(3) a(3) unfolding x by (rule nearest_tenth_unique)
  show ?thesis using a(4) b(4) unfolding d by (rule nearest64_unique)
qed

lemma rounded_percentage_computed:
  assumes "0 \<le> p" and "p \<le> 1"
  shows "rounded_percentage p (py_round1 (fmul (fl p) 100))"
  unfolding rounded_percentage_def
  using completion_rate_steps [OF assms] by blast

section \<open>Ids\<close>




section \<open>Loading\<close>

text \<open>
  C2, as the code has it. A data file that holds valid JSON which is not an array gives the
  empty collection and leaves the state as it was: nothing raises, and no message is shown
  (line 19 returns \<open>[]\<close> without calling \<^verbatim>\<open>st.error\<close>). A data file that cannot be
  read or decoded gives the empty collection and one \<^verbatim>\<open>Error loading todos\<close> message;
  nothing raises.
\<close>

theorem load_todos_recovers:
  "(data_file s = Valid v \<and> (\<forall>todos. v \<noteq> JArray todos) \<longrightarrow> load_todos s = ([], s)) \<and>
   (data_file s = Malformed \<longrightarrow> load_todos s = ([], show_ui Error_loading_todos s))"
  by (cases v) (simp_all add: load_todos_def)

theorem load_todos_recovers_witness:
  "load_todos (start_with (Valid (JString (str ''not a list'')))) =
     ([], start_with (Valid (JString (str ''not a list'')))) \<and>
   load_todos (start_with Malformed) = ([], show_ui Error_loading_todos (start_with Malformed))"
  using load_todos_recovers [of "start_with (Valid (JString (str ''not a list'')))" "JString (str ''not a list'')"]
    load_todos_recovers [of "start_with Malformed" JNull]
  by (simp add: start_with_def)

text \<open>
  Against C2 as stated: on a file that holds the JSON string \<open>"not a list"\<close>, loading
  shows no message at all.
\<close>

theorem load_non_array_reports_nothing:
  "ui (snd (load_todos (start_with (Valid (JString (str ''not a list'')))))) = []"
  by (simp add: load_todos_def start_with_def)

section \<open>Adding\<close>





section \<open>Filtering\<close>

text \<open>
  Lines 98-102 as one filter: the list keeps exactly the to-dos whose \<^verbatim>\<open>category\<close> key
  holds a selected category, when any is selected, and whose \<^verbatim>\<open>priority\<close> key holds a
  selected priority, when any is selected; an empty selection restricts nothing.
\<close>

lemma filtered_todos_conjunction:
  "filtered_todos filter_category filter_priority shown =
     filter (\<lambda>t. (filter_category = [] \<or> category t \<in> Some ` set filter_category) \<and>
                  (filter_priority = [] \<or> priority t \<in> Some ` set filter_priority)) shown"
proof -
  have g: "get_in v sel \<longleftrightarrow> v \<in> Some ` set sel" for v sel
    by (cases v) (auto simp: get_in_def)
  show ?thesis
    by (simp add: filtered_todos_def g conj_commute)
qed

text \<open>The example of the specification: three to-dos, categories \<open>{Work}\<close>, priorities \<open>{High}\<close>.\<close>

lemma filtered_todos_example:
  "filtered_todos [str ''Work''] [str ''High'']
     (active_todos
       [\<lparr>task_id = None, title = None, priority = Some (str ''High''),
          category = Some (str ''Work''), completed = None\<rparr>,
        \<lparr>task_id = None, title = None, priority = Some (str ''Low''),
          category = Some (str ''Work''), completed = None\<rparr>,
        \<lparr>task_id = None, title = None, priority = Some (str ''High''),
          category = Some (str ''Home''), completed = None\<rparr>]) =
     [\<lparr>task_id = None, title = None, priority = Some (str ''High''),
        category = Some (str ''Work''), completed = None\<rparr>]"
  by (simp add: filtered_todos_def active_todos_def get_completed_def get_in_def str_def)

text \<open>
  C4 fails on a to-do without a \<^verbatim>\<open>priority\<close> key. Its priority is \<open>Low\<close>: so the data
  model has it, so the card shows it (lines 108 and 204) and so the histogram counts it
  (line 263), each through \<^verbatim>\<open>t.get("priority", "Low")\<close>. The filter of line 102 reads
  \<^verbatim>\<open>t.get("priority")\<close> with no default and drops the to-do when \<open>Low\<close> is selected:
  a to-do whose priority is in the selected set is not kept.
\<close>

theorem missing_priority_dropped_by_low_filter:
  "get_priority \<lparr>task_id = Some 1, title = Some (str ''Buy milk''), priority = None,
                  category = Some (str ''Home''), completed = Some False\<rparr> = str ''Low'' \<and>
   priority_counts [\<lparr>task_id = Some 1, title = Some (str ''Buy milk''), priority = None,
                      category = Some (str ''Home''), completed = Some False\<rparr>] (str ''Low'') = Some 1 \<and>
   filtered_todos [] [str ''Low'']
     (active_todos [\<lparr>task_id = Some 1, title = Some (str ''Buy milk''), priority = None,
                      category = Some (str ''Home''), completed = Some False\<rparr>]) = []"
  by (simp add: get_priority_def priority_counts_def value_counts_def filtered_todos_def
      active_todos_def get_completed_def get_in_def)

section \<open>Clearing the completed to-dos\<close>



section \<open>Completing and un-completing\<close>





section \<open>Editing\<close>



section \<open>The completion rate\<close>

text \<open>
  C7. For the empty collection nothing is divided: the guard of line 255 skips the
  computation, and \<^verbatim>\<open>render_analytics\<close> has already returned on line 244; nothing raises.
  For a non-empty collection of \<open>n\<close> to-dos of which \<open>c\<close> are completed, the rate is computed
  without an exception and is Python's \<^verbatim>\<open>round(c / n * 100, 1)\<close>, the one number that the
  rounding rules allow: the quotient \<open>c / n\<close> rounded to the nearest binary64 number, its
  product with 100 rounded to the nearest binary64 number, that rounded to the nearest
  number with one decimal place, and the decimal read as the nearest binary64 number,
  every tie going to the even neighbour. The rate lies within 0.05 of the exact percentage
  \<open>100 c / n\<close>, up to the floating-point error \<open>2 ^ -44\<close>.
\<close>

theorem completion_rate_rounds:
  "completion_rate [] = Inr None \<and>
   (fst (load_todos s) = [] \<longrightarrow> fst (render_analytics s) = Inr None) \<and>
   (todos \<noteq> [] \<longrightarrow>
      (\<exists>r. completion_rate todos = Inr (Some r) \<and>
           rounded_percentage (of_nat (completed_count todos) / of_nat (length todos)) r \<and>
           (\<forall>r'. rounded_percentage (of_nat (completed_count todos) / of_nat (length todos)) r' \<longrightarrow>
                 r' = r) \<and>
           \<bar>r - 100 * (of_nat (completed_count todos) / of_nat (length todos))\<bar> \<le> 1 / 20 + 1 / 2 ^ 44 \<and>
           (holds s todos \<longrightarrow>
              (\<exists>a. fst (render_analytics s) = Inr (Some a) \<and> total a = length todos \<and>
                   done_count a = completed_count todos \<and> rate a = Some r))))"
proof (intro conjI impI)
  show "completion_rate [] = Inr None"
    by (simp add: completion_rate_def)
  show "fst (render_analytics s) = Inr None" if "fst (load_todos s) = []"
    using that by (simp add: render_analytics_def split_beta)
next
  assume ne: "todos \<noteq> []"
  let ?q = "of_nat (completed_count todos) / of_nat (length todos) :: rat"
  let ?r = "py_round1 (fmul (fl ?q) 100)"
  have q: "0 \<le> ?q" "?q \<le> 1"
    using ne completed_count_le [of todos] by (simp_all add: divide_le_eq_1)
  have c: "completion_rate todos = Inr (Some ?r)"
    using ne by (rule completion_rate_nonempty)
  have p: "rounded_percentage ?q ?r"
    using q by (rule rounded_percentage_computed)
  have u: "\<forall>r'. rounded_percentage ?q r' \<longrightarrow> r' = ?r"
    using p by (blast intro: rounded_percentage_unique)
  have b: "\<bar>?r - 100 * ?q\<bar> \<le> 1 / 20 + 1 / 2 ^ 44"
    using q by (rule rate_bound(1))
  have a: "\<exists>a. fst (render_analytics s) = Inr (Some a) \<and> total a = length todos \<and>
              done_count a = completed_count todos \<and> rate a = Some ?r" if "holds s todos"
    using that ne c by (simp add: render_analytics_def load_holds)
  show "\<exists>r. completion_rate todos = Inr (Some r) \<and>
           rounded_percentage (of_nat (completed_count todos) / of_nat (length todos)) r \<and>
           (\<forall>r'. rounded_percentage (of_nat (completed_count todos) / of_nat (length todos)) r' \<longrightarrow>
                 r' = r) \<and>
           \<bar>r - 100 * (of_nat (completed_count todos) / of_nat (length todos))\<bar> \<le> 1 / 20 + 1 / 2 ^ 44 \<and>
           (holds s todos \<longrightarrow>
              (\<exists>a. fst (render_analytics s) = Inr (Some a) \<and> total a = length todos \<and>
                   done_count a = completed_count todos \<and> rate a = Some r))"
    by (intro exI [of _ ?r] conjI impI c p u b a)
qed

text \<open>
  One to-do completed of four gives 25.0, one of three 33.3 and one of sixteen 6.2 (the
  percentage 6.25 is a tie, which goes to the even digit), each as the binary64 number that
  Python prints so.
\<close>

theorem completion_rate_rounds_witness:
  "completion_rate [todo 1 ''a'' ''Low'' '''' True, todo 2 ''b'' ''Low'' '''' False,
                    todo 3 ''c'' ''High'' ''Work'' False, todo 4 ''d'' ''Low'' ''Home'' False] =
     Inr (Some 25) \<and>
   rounded_percentage (1 / 4) 25 \<and>
   completion_rate [todo 1 ''a'' ''Low'' '''' True, todo 2 ''b'' ''Low'' '''' False,
                    todo 3 ''c'' ''High'' ''Work'' False] =
     Inr (Some (2343279181116211 / 70368744177664)) \<and>
   rounded_percentage (1 / 3) (2343279181116211 / 70368744177664) \<and>
   \<bar>2343279181116211 / 70368744177664 - 100 * (1 / 3)\<bar> \<le> (1 / 20 + 1 / 2 ^ 44 :: rat) \<and>
   completion_rate (todo 1 ''a'' ''Low'' '''' True # replicate 15 (todo 2 ''b'' ''Low'' '''' False)) =
     Inr (Some (6980579422424269 / 1125899906842624)) \<and>
   rounded_percentage (1 / 16) (6980579422424269 / 1125899906842624) \<and>
   fst (render_analytics (start_with (Valid (JArray [])))) = Inr None"
proof -
  let ?t4 = "[todo 1 ''a'' ''Low'' '''' True, todo 2 ''b'' ''Low'' '''' False,
              todo 3 ''c'' ''High'' ''Work'' False, todo 4 ''d'' ''Low'' ''Home'' False]"
  let ?t3 = "[todo 1 ''a'' ''Low'' '''' True, todo 2 ''b'' ''Low'' '''' False,
              todo 3 ''c'' ''High'' ''Work'' False]"
  let ?t16 = "todo 1 ''a'' ''Low'' '''' True # replicate 15 (todo 2 ''b'' ''Low'' '''' False)"
  let ?s = "start_with (Valid (JArray []))"
  have c: "completed_count ?t4 = 1" "completed_count ?t3 = 1" "completed_count ?t16 = 1"
    by (simp_all add: completed_count_def get_completed_def todo_def)
  have e4: "py_round1 (fmul (fl (1 / 4)) 100) = 25"
    by code_simp
  have e3: "py_round1 (fmul (fl (1 / 3)) 100) = 2343279181116211 / 70368744177664"
    by code_simp
  have e16: "py_round1 (fmul (fl (1 / 16)) 100) = 6980579422424269 / 1125899906842624"
    by code_simp
  have r4: "completion_rate ?t4 = Inr (Some 25)"
    using completion_rate_nonempty [of ?t4] c(1) e4 by simp
  have r3: "completion_rate ?t3 = Inr (Some (2343279181116211 / 70368744177664))"
    using completion_rate_nonempty [of ?t3] c(2) e3 by simp
  have r16: "completion_rate ?t16 = Inr (Some (6980579422424269 / 1125899906842624))"
    using completion_rate_nonempty [of ?t16] c(3) e16 by simp
  have q: "(of_nat (completed_count ?t4) / of_nat (length ?t4) :: rat) = 1 / 4"
    "(of_nat (completed_count ?t3) / of_nat (length ?t3) :: rat) = 1 / 3"
    "(of_nat (completed_count ?t16) / of_nat (length ?t16) :: rat) = 1 / 16"
    by (simp_all add: c)
  have l: "fst (load_todos ?s) = []"
    by (simp add: load_todos_def start_with_def)
  have ne: "?t4 \<noteq> []" "?t3 \<noteq> []" "?t16 \<noteq> []"
    by simp_all
  note i4 = completion_rate_rounds [of ?s ?t4, THEN conjunct2, THEN conjunct2, THEN mp, OF ne(1)]
  note i3 = completion_rate_rounds [of ?s ?t3, THEN conjunct2, THEN conjunct2, THEN mp, OF ne(2)]
  note i16 = completion_rate_rounds [of ?s ?t16, THEN conjunct2, THEN conjunct2, THEN mp, OF ne(3)]
  from i4 obtain a4 where
    k4: "completion_rate ?t4 = Inr (Some a4)"
      "rounded_percentage (of_nat (completed_count ?t4) / of_nat (length ?t4)) a4"
    by blast
  from k4(1) r4 have "a4 = 25" by simp
  with k4(2) have p4: "rounded_percentage (1 / 4) 25"
    unfolding q by simp
  from i3 obtain a3 where
    k3: "completion_rate ?t3 = Inr (Some a3)"
      "rounded_percentage (of_nat (completed_count ?t3) / of_nat (length ?t3)) a3"
      "\<bar>a3 - 100 * (of_nat (completed_count ?t3) / of_nat (length ?t3))\<bar> \<le> 1 / 20 + 1 / 2 ^ 44"
    by blast
  from k3(1) r3 have a3: "a3 = 2343279181116211 / 70368744177664" by simp
  have p3: "rounded_percentage (1 / 3) (2343279181116211 / 70368744177664)"
    using k3(2) unfolding q a3 .
  have b3: "\<bar>2343279181116211 / 70368744177664 - 100 * (1 / 3)\<bar> \<le> (1 / 20 + 1 / 2 ^ 44 :: rat)"
    using k3(3) unfolding q a3 .
  from i16 obtain a16 where
    k16: "completion_rate ?t16 = Inr (Some a16)"
      "rounded_percentage (of_nat (completed_count ?t16) / of_nat (length ?t16)) a16"
    by blast
  from k16(1) r16 have a16: "a16 = 6980579422424269 / 1125899906842624" by simp
  have p16: "rounded_percentage (1 / 16) (6980579422424269 / 1125899906842624)"
    using k16(2) unfolding q a16 .
  have em: "fst (render_analytics ?s) = Inr None"
    using completion_rate_rounds [of ?s ?t3, THEN conjunct2, THEN conjunct1] l by simp
  show ?thesis
    by (intro conjI r4 p4 r3 p3 b3 r16 p16 em)
qed

section \<open>The priority histogram\<close>

text \<open>
  C8, as the code has it. The histogram gives every value the number of to-dos whose
  priority is that value; a to-do without a priority is counted under \<open>Low\<close>. A priority
  that is present but is none of Low, Medium, High is counted under its own value, not
  under \<open>Low\<close>. A value no to-do counts for has no row.
\<close>

theorem priority_counts_by_value:
  "priority_counts todos v =
     (let n = length (filter (\<lambda>t. priority t = Some v \<or> priority t = None \<and> v = str ''Low'') todos)
      in if n = 0 then None else Some n)"
proof -
  have c: "count_list (map get_priority todos) v =
      length (filter (\<lambda>t. priority t = Some v \<or> priority t = None \<and> v = str ''Low'') todos)"
    by (induction todos) (auto simp: get_priority_def split: option.splits)
  have "v \<in> set (map get_priority todos) \<longleftrightarrow> count_list (map get_priority todos) v \<noteq> 0"
    by (simp add: count_list_0_iff)
  then show ?thesis
    unfolding priority_counts_def value_counts_def Let_def c by auto
qed

text \<open>
  Against C8 as stated: one to-do with the priority \<open>Urgent\<close> gives a row \<open>Urgent: 1\<close> and
  no row for \<open>Low\<close>.
\<close>

theorem unknown_priority_not_counted_as_low:
  "priority_counts [todo 1 ''a'' ''Urgent'' '''' False] (str ''Low'') = None \<and>
   priority_counts [todo 1 ''a'' ''Urgent'' '''' False] (str ''Urgent'') = Some 1"
  by (simp add: priority_counts_def value_counts_def get_priority_def todo_def str_def)

end
